theory Spec2Isabelle
  imports Main "HOL-Library.Word"
begin

unbundle bit_operations_syntax

section \<open>Machine types and errors\<close>

text \<open>
  Go's \<open>byte\<close> is an 8-bit word and \<open>uint\<close> a 64-bit word (the usual 64-bit platforms):
  \<open>+\<close> and \<open>*\<close> wrap around, \<open>div\<close> and \<open>mod\<close> are the unsigned operations, shifts of a
  byte drop the bits that leave the byte. A fixed array \<open>[16]byte\<close> and a slice \<open>[]byte\<close>
  are both lists of bytes; the theorems about an array state its length.
\<close>

type_synonym byte = "8 word"
type_synonym uint = "64 word"

text \<open>
  Package \<open>errors\<close>: the four error values. \<open>RuntimePanic\<close> is not an error value of the
  package: it stands for a Go run-time panic (slice bounds out of range), which ends the
  call without any return value.
\<close>

datatype error =
    ErrTooShortToMarshal
  | ErrTooShortToParse
  | ErrPrefixLength
  | ErrOutOfRange
  | RuntimePanic

section \<open>Slices\<close>

text \<open>
  The slice expression \<open>a[lo:hi]\<close> with unsigned bounds: it panics unless
  \<open>lo \<le> hi \<le> len(a)\<close>.
\<close>

definition slice_range :: "byte list \<Rightarrow> uint \<Rightarrow> uint \<Rightarrow> error + byte list" where
  "slice_range a lo hi =
     (if lo \<le> hi \<and> unat hi \<le> length a
      then Inr (take (unat hi - unat lo) (drop (unat lo) a))
      else Inl RuntimePanic)"

text \<open>
  The builtin \<open>copy(dst[k:], src)\<close>, element by element. A write past the end of \<open>dst\<close>
  does nothing (\<open>xs[i := v]\<close> leaves \<open>xs\<close> alone there), as \<open>copy\<close> stops at the shorter
  of the two slices.
\<close>

fun copy_at :: "byte list \<Rightarrow> nat \<Rightarrow> byte list \<Rightarrow> byte list" where
  "copy_at dst k [] = dst"
| "copy_at dst k (b # bs) = copy_at (dst[k := b]) (Suc k) bs"

section \<open>The bit-window codec (internal/utils)\<close>

text \<open>
  \<open>for i, b := range s { ret[i] = b << offset }\<close> and
  \<open>for i, b := range s { ret[i] |= b >> (8 - offset) }\<close>, the index \<open>i\<close> running from
  the given start.
\<close>

fun init_left :: "nat \<Rightarrow> nat \<Rightarrow> byte list \<Rightarrow> byte list \<Rightarrow> byte list" where
  "init_left offset i [] ret = ret"
| "init_left offset i (b # bs) ret = init_left offset (Suc i) bs (ret[i := push_bit offset b])"

fun init_right :: "nat \<Rightarrow> nat \<Rightarrow> byte list \<Rightarrow> byte list \<Rightarrow> byte list" where
  "init_right offset i [] ret = ret"
| "init_right offset i (b # bs) ret =
     init_right offset (Suc i) bs (ret[i := (ret ! i) OR drop_bit (8 - offset) b])"

text \<open>
  \<open>FromIPv6(ipv6 [16]byte, startBit uint, length uint)\<close>. \<open>len(ipv6)\<close> is the constant 16.
  The first loop ranges over \<open>ipv6[startByte : startByte+length]\<close>, the second over
  \<open>ipv6[startByte+1 : startByte+length]\<close>.
\<close>

definition FromIPv6 :: "byte list \<Rightarrow> uint \<Rightarrow> uint \<Rightarrow> error + byte list" where
  "FromIPv6 ipv6 startBit len =
     (if 16 < len then Inl ErrTooShortToParse
      else if startBit + len * 8 > 8 * 16 then Inl ErrOutOfRange
      else
        let startByte = startBit div 8;
            offset = startBit mod 8;
            ret = replicate (unat len) 0
        in if offset = 0 then
             (case slice_range ipv6 startByte (startByte + len) of
                Inl e \<Rightarrow> Inl e
              | Inr s \<Rightarrow> Inr (copy_at ret 0 s))
           else
             (case slice_range ipv6 startByte (startByte + len) of
                Inl e \<Rightarrow> Inl e
              | Inr s1 \<Rightarrow>
                 (case slice_range ipv6 (startByte + 1) (startByte + len) of
                    Inl e \<Rightarrow> Inl e
                  | Inr s2 \<Rightarrow>
                     Inr (init_right (unat offset) 0 s2 (init_left (unat offset) 0 s1 ret)))))"

text \<open>
  \<open>for i, b := range appendThis { slice[k+i] |= b >> offset }\<close> and
  \<open>for i, b := range appendThis { slice[k+i] |= b << (8 - offset) }\<close>.
\<close>

fun add_right :: "nat \<Rightarrow> nat \<Rightarrow> byte list \<Rightarrow> byte list \<Rightarrow> byte list" where
  "add_right offset k [] sl = sl"
| "add_right offset k (b # bs) sl =
     add_right offset (Suc k) bs (sl[k := (sl ! k) OR drop_bit offset b])"

fun add_left :: "nat \<Rightarrow> nat \<Rightarrow> byte list \<Rightarrow> byte list \<Rightarrow> byte list" where
  "add_left offset k [] sl = sl"
| "add_left offset k (b # bs) sl =
     add_left offset (Suc k) bs (sl[k := (sl ! k) OR push_bit (8 - offset) b])"

text \<open>
  \<open>AppendToSlice(slice []byte, endBit uint, appendThis []byte)\<close> returns the updated slice
  or the error. \<open>endByte\<close> is below \<open>2^61\<close>, so \<open>int(endByte)\<close> is its value and the sum
  of the capacity check cannot overflow. Past the check, \<open>isOffset + endByte + i\<close> is
  below \<open>len(slice)\<close> for every index \<open>i\<close> of \<open>appendThis\<close>: no index expression of
  the loops and no bound of the \<open>copy\<close> can panic.
\<close>

definition AppendToSlice :: "byte list \<Rightarrow> uint \<Rightarrow> byte list \<Rightarrow> error + byte list" where
  "AppendToSlice sl endBit appendThis =
     (let endByte = endBit div 8;
          offset = endBit mod 8;
          isOffset = (if offset > 0 then 1 else 0)
      in if isOffset + unat endByte + length appendThis > length sl
         then Inl ErrTooShortToMarshal
         else if offset = 0 then Inr (copy_at sl (unat endByte) appendThis)
         else Inr (add_left (unat offset) (unat endByte + isOffset) appendThis
                     (add_right (unat offset) (unat endByte) appendThis sl)))"

section \<open>Args.Mob.Session (encoding/args-mob-session.go)\<close>

definition teidSizeByte :: nat where "teidSizeByte = 4"
definition teidPosByte :: nat where "teidPosByte = 1"
definition qfiSizeBit :: nat where "qfiSizeBit = 6"
definition qfiPosBit :: nat where "qfiPosBit = 2"
definition qfiPosByte :: nat where "qfiPosByte = 0"
definition qfiMask :: byte where "qfiMask = drop_bit (8 - qfiSizeBit) 0xFF"
definition rSizeBit :: nat where "rSizeBit = 1"
definition rPosBit :: nat where "rPosBit = 1"
definition rPosByte :: nat where "rPosByte = 0"
definition rMask :: byte where "rMask = drop_bit (8 - rSizeBit) 0xFF"
definition uSizeBit :: nat where "uSizeBit = 1"
definition uPosBit :: nat where "uPosBit = 0"
definition uPosByte :: nat where "uPosByte = 0"
definition uMask :: byte where "uMask = drop_bit (8 - uSizeBit) 0xFF"

lemmas field_consts =
  teidSizeByte_def teidPosByte_def qfiSizeBit_def qfiPosBit_def qfiPosByte_def qfiMask_def
  rSizeBit_def rPosBit_def rPosByte_def rMask_def uSizeBit_def uPosBit_def uPosByte_def
  uMask_def

record ArgsMobSession =
  qfi :: byte
  r :: byte
  u :: byte
  pduSessionID :: "32 word"

definition NewArgsMobSession :: "byte \<Rightarrow> bool \<Rightarrow> bool \<Rightarrow> 32 word \<Rightarrow> ArgsMobSession" where
  "NewArgsMobSession q rflag uflag sid =
     \<lparr>qfi = q, r = (if rflag then 1 else 0), u = (if uflag then 1 else 0),
      pduSessionID = sid\<rparr>"

text \<open>\<open>binary.BigEndian.PutUint32\<close> (the four bytes written) and \<open>binary.BigEndian.Uint32\<close>.\<close>

definition PutUint32 :: "32 word \<Rightarrow> byte list" where
  "PutUint32 v = [ucast (drop_bit 24 v), ucast (drop_bit 16 v), ucast (drop_bit 8 v), ucast v]"

definition Uint32 :: "byte list \<Rightarrow> 32 word" where
  "Uint32 b = ucast (b ! 3) OR push_bit 8 (ucast (b ! 2)) OR push_bit 16 (ucast (b ! 1))
                OR push_bit 24 (ucast (b ! 0))"

definition ArgsMobSession_MarshalLen :: nat where
  "ArgsMobSession_MarshalLen = 5"

definition ArgsMobSession_MarshalTo :: "ArgsMobSession \<Rightarrow> byte list \<Rightarrow> error + byte list" where
  "ArgsMobSession_MarshalTo a b =
     (if length b < ArgsMobSession_MarshalLen then Inl ErrTooShortToMarshal
      else
        let b1 = b[qfiPosByte := (b ! qfiPosByte) OR push_bit qfiPosBit (qfiMask AND qfi a)];
            b2 = b1[rPosByte := (b1 ! rPosByte) OR push_bit rPosBit (rMask AND r a)];
            b3 = b2[uPosByte := (b2 ! uPosByte) OR push_bit uPosBit (uMask AND u a)]
        in Inr (copy_at b3 teidPosByte (PutUint32 (pduSessionID a))))"

definition ArgsMobSession_Marshal :: "ArgsMobSession \<Rightarrow> error + byte list" where
  "ArgsMobSession_Marshal a =
     ArgsMobSession_MarshalTo a (replicate ArgsMobSession_MarshalLen 0)"

definition UnmarshalBinary :: "byte list \<Rightarrow> error + ArgsMobSession" where
  "UnmarshalBinary b =
     (if length b < 5 then Inl ErrTooShortToParse
      else Inr \<lparr>qfi = qfiMask AND drop_bit qfiPosBit (b ! qfiPosByte),
                r = rMask AND drop_bit rPosBit (b ! rPosByte),
                u = uMask AND drop_bit uPosBit (b ! uPosByte),
                pduSessionID = Uint32 (take teidSizeByte (drop teidPosByte b))\<rparr>)"

definition ParseArgsMobSession :: "byte list \<Rightarrow> error + ArgsMobSession" where
  "ParseArgsMobSession b = UnmarshalBinary b"

section \<open>Prefixes (Go's net/netip)\<close>

text \<open>
  \<open>netip.Prefix\<close> belongs to Go's standard library, not to this repository; the
  records of the repository hold prefixes of 128-bit addresses (\<open>netip.AddrFrom16\<close>), and
  so does the model: \<open>Addr\<close> is the address as \<open>As16\<close> returns it, \<open>Bits\<close> the prefix
  length, which the library reports as \<open>-1\<close> for an invalid prefix. \<open>PrefixFrom\<close> makes
  the prefix invalid when the length is outside \<open>0..128\<close>; \<open>Masked\<close> clears the bits
  beyond the length and turns an invalid prefix into the zero prefix.
\<close>

record Prefix =
  Addr :: "byte list"
  Bits :: int

fun mask6 :: "nat \<Rightarrow> byte list \<Rightarrow> byte list" where
  "mask6 n [] = []"
| "mask6 n (b # bs) =
     (if 8 \<le> n then b # mask6 (n - 8) bs
      else (b AND push_bit (8 - n) 0xFF) # mask6 0 bs)"

definition PrefixFrom :: "byte list \<Rightarrow> int \<Rightarrow> Prefix" where
  "PrefixFrom ip n =
     (if 0 \<le> n \<and> n \<le> 128 then \<lparr>Addr = ip, Bits = n\<rparr> else \<lparr>Addr = ip, Bits = - 1\<rparr>)"

definition Masked :: "Prefix \<Rightarrow> Prefix" where
  "Masked p =
     (if Bits p < 0 \<or> 128 < Bits p then \<lparr>Addr = replicate 16 0, Bits = - 1\<rparr>
      else \<lparr>Addr = mask6 (nat (Bits p)) (Addr p), Bits = Bits p\<rparr>)"

text \<open>
  What the library guarantees of every prefix value, and the canonical form the
  constructors of the repository store: 16 address bytes, a length in \<open>0..128\<close> (or
  \<open>-1\<close>), no bit set beyond the length.
\<close>

definition prefix_ok :: "Prefix \<Rightarrow> bool" where
  "prefix_ok p = (length (Addr p) = 16 \<and> - 1 \<le> Bits p \<and> Bits p \<le> 128)"

definition canonical :: "Prefix \<Rightarrow> bool" where
  "canonical p = (length (Addr p) = 16 \<and> 0 \<le> Bits p \<and> Bits p \<le> 128 \<and> Masked p = p)"

text \<open>
  A call that returns \<open>(value, error)\<close> returns the nil slice with an error; a caller
  that goes on without looking at the error goes on with nil.
\<close>

definition returned_slice :: "error + byte list \<Rightarrow> byte list" where
  "returned_slice x = (case x of Inl e \<Rightarrow> [] | Inr s \<Rightarrow> s)"

section \<open>The destination address (End.M.GTP4.E SID)\<close>

text \<open>
  The struct \<open>MGTP4IPv6Dst\<close>; its fields are \<open>prefix\<close>, \<open>ipv4\<close> and \<open>argsMobSession\<close>
  (named \<open>dst_...\<close> here, since the source address has fields of the same names). The
  model holds the argument block by value: a receiver whose \<open>argsMobSession\<close> pointer is
  nil is outside the model.
\<close>

record MGTP4IPv6Dst =
  dst_prefix :: Prefix
  dst_ipv4 :: "byte list"
  dst_argsMobSession :: ArgsMobSession

definition NewMGTP4IPv6Dst :: "Prefix \<Rightarrow> byte list \<Rightarrow> ArgsMobSession \<Rightarrow> MGTP4IPv6Dst" where
  "NewMGTP4IPv6Dst p ip a = \<lparr>dst_prefix = Masked p, dst_ipv4 = ip, dst_argsMobSession = a\<rparr>"

text \<open>
  \<open>ParseMGTP4IPv6Dst(ipv6Addr [16]byte, prefixLength uint)\<close>. \<open>int(prefixLength)\<close> is
  the signed reading of the word. The error of the second \<open>FromIPv6\<close> call is assigned
  and then overwritten by the result of \<open>ParseArgsMobSession\<close>, which receives whatever
  slice was returned; only a panic of \<open>FromIPv6\<close> ends the call there.
\<close>

definition ParseMGTP4IPv6Dst :: "byte list \<Rightarrow> uint \<Rightarrow> error + MGTP4IPv6Dst" where
  "ParseMGTP4IPv6Dst ipv6Addr prefixLength =
     (let pfx = Masked (PrefixFrom ipv6Addr (sint prefixLength))
      in case FromIPv6 ipv6Addr prefixLength 4 of
           Inl e \<Rightarrow> Inl e
         | Inr src \<Rightarrow>
            let ip = copy_at (replicate 4 0) 0 (take 4 src);
                res = FromIPv6 ipv6Addr (prefixLength + 8 * 4) 5
            in if res = Inl RuntimePanic then Inl RuntimePanic
               else case ParseArgsMobSession (returned_slice res) of
                      Inl e \<Rightarrow> Inl e
                    | Inr a \<Rightarrow>
                       Inr \<lparr>dst_prefix = pfx, dst_ipv4 = ip, dst_argsMobSession = a\<rparr>)"

definition MGTP4IPv6Dst_MarshalLen :: nat where
  "MGTP4IPv6Dst_MarshalLen = 16"

text \<open>
  \<open>MarshalTo\<close> returns the buffer as the call leaves it, or the error. (After an error
  the Go buffer keeps what was written before; no caller reads it then.)
  \<open>uint(bits)\<close> and \<open>uint(bits+8*4)\<close> convert the signed length to the word.
\<close>

definition MGTP4IPv6Dst_MarshalTo :: "MGTP4IPv6Dst \<Rightarrow> byte list \<Rightarrow> error + byte list" where
  "MGTP4IPv6Dst_MarshalTo m b =
     (if length b < MGTP4IPv6Dst_MarshalLen then Inl ErrTooShortToMarshal
      else
        let b0 = copy_at b 0 (Addr (dst_prefix m));
            bits = Bits (dst_prefix m)
        in if bits = - 1 then Inl ErrPrefixLength
           else case AppendToSlice b0 (word_of_int bits) (dst_ipv4 m) of
                  Inl e \<Rightarrow> Inl e
                | Inr b1 \<Rightarrow>
                   (case ArgsMobSession_Marshal (dst_argsMobSession m) of
                      Inl e \<Rightarrow> Inl e
                    | Inr argsMobSessionB \<Rightarrow>
                       AppendToSlice b1 (word_of_int (bits + 8 * 4)) argsMobSessionB))"

definition MGTP4IPv6Dst_Marshal :: "MGTP4IPv6Dst \<Rightarrow> error + byte list" where
  "MGTP4IPv6Dst_Marshal m = MGTP4IPv6Dst_MarshalTo m (replicate MGTP4IPv6Dst_MarshalLen 0)"

section \<open>The source address (NextMN layout)\<close>

definition ipv6LenEncodingSizeBit :: nat where "ipv6LenEncodingSizeBit = 7"
definition ipv6LenEncodingPosBit :: nat where "ipv6LenEncodingPosBit = 0"
definition ipv6LenEncodingPosByte :: nat where "ipv6LenEncodingPosByte = 15"
definition ipv6LenEncodingMask :: byte where
  "ipv6LenEncodingMask = drop_bit (8 - ipv6LenEncodingSizeBit) 0xFF"

lemmas len_consts =
  ipv6LenEncodingSizeBit_def ipv6LenEncodingPosBit_def ipv6LenEncodingPosByte_def
  ipv6LenEncodingMask_def

record MGTP4IPv6Src =
  src_prefix :: Prefix
  src_ipv4 :: "byte list"
  udp :: "16 word"

definition NewMGTP4IPv6Src :: "Prefix \<Rightarrow> byte list \<Rightarrow> 16 word \<Rightarrow> MGTP4IPv6Src" where
  "NewMGTP4IPv6Src p ip udpPortNumber =
     \<lparr>src_prefix = Masked p, src_ipv4 = ip, udp = udpPortNumber\<rparr>"

text \<open>\<open>binary.BigEndian.PutUint16\<close> and \<open>binary.BigEndian.Uint16\<close>.\<close>

definition PutUint16 :: "16 word \<Rightarrow> byte list" where
  "PutUint16 v = [ucast (drop_bit 8 v), ucast v]"

definition Uint16 :: "byte list \<Rightarrow> 16 word" where
  "Uint16 b = ucast (b ! 1) OR push_bit 8 (ucast (b ! 0))"

definition ParseMGTP4IPv6Src :: "byte list \<Rightarrow> uint \<Rightarrow> error + MGTP4IPv6Src" where
  "ParseMGTP4IPv6Src addr prefixLen =
     (if prefixLen = 0 then Inl ErrPrefixLength
      else if prefixLen + 8 * 4 > 8 * 16 then Inl ErrOutOfRange
      else
        let pfx = Masked (PrefixFrom addr (sint prefixLen))
        in case FromIPv6 addr prefixLen 4 of
             Inl e \<Rightarrow> Inl e
           | Inr src \<Rightarrow>
              Inr \<lparr>src_prefix = pfx, src_ipv4 = copy_at (replicate 4 0) 0 (take 4 src),
                   udp = 0\<rparr>)"

definition ParseMGTP4IPv6SrcNextMN :: "byte list \<Rightarrow> error + MGTP4IPv6Src" where
  "ParseMGTP4IPv6SrcNextMN addr =
     (let prefixLen = ucast (ipv6LenEncodingMask
                        AND drop_bit ipv6LenEncodingPosBit (addr ! ipv6LenEncodingPosByte))
      in case ParseMGTP4IPv6Src addr prefixLen of
           Inl e \<Rightarrow> Inl e
         | Inr res \<Rightarrow>
            if prefixLen + 8 * 4 + 16 + of_nat ipv6LenEncodingSizeBit > 8 * 16
            then Inl ErrOutOfRange
            else case FromIPv6 addr (prefixLen + 8 * 4) 2 of
                   Inl e \<Rightarrow> Inl e
                 | Inr src \<Rightarrow>
                    let udpb = copy_at (replicate 2 0) 0 (take 2 src)
                    in Inr (res\<lparr>udp := Uint16 [udpb ! 0, udpb ! 1]\<rparr>))"

definition MGTP4IPv6Src_MarshalLen :: nat where
  "MGTP4IPv6Src_MarshalLen = 16"

definition MGTP4IPv6Src_MarshalTo :: "MGTP4IPv6Src \<Rightarrow> byte list \<Rightarrow> error + byte list" where
  "MGTP4IPv6Src_MarshalTo m b =
     (if length b < MGTP4IPv6Src_MarshalLen then Inl ErrTooShortToMarshal
      else
        let b0 = copy_at b 0 (Addr (src_prefix m));
            udpB = copy_at (replicate 2 0) 0 (PutUint16 (udp m));
            bits = Bits (src_prefix m)
        in if bits = - 1 then Inl ErrPrefixLength
           else case AppendToSlice b0 (word_of_int bits) (src_ipv4 m) of
                  Inl e \<Rightarrow> Inl e
                | Inr b1 \<Rightarrow>
                   (case AppendToSlice b1 (word_of_int (bits + 8 * 4)) udpB of
                      Inl e \<Rightarrow> Inl e
                    | Inr b2 \<Rightarrow> Inr (b2[ipv6LenEncodingPosByte := word_of_int bits])))"

definition MGTP4IPv6Src_Marshal :: "MGTP4IPv6Src \<Rightarrow> error + byte list" where
  "MGTP4IPv6Src_Marshal m = MGTP4IPv6Src_MarshalTo m (replicate MGTP4IPv6Src_MarshalLen 0)"

text \<open>
  Bit \<open>k\<close> of a buffer, counted from the most significant bit of byte 0, as the address
  layouts of RFC 9433 count them.
\<close>

definition bit_at :: "byte list \<Rightarrow> nat \<Rightarrow> bool" where
  "bit_at buf k = bit (buf ! (k div 8)) (7 - k mod 8)"

text \<open>
  The number that the \<open>n\<close> bits of a buffer from bit \<open>start\<close> on spell, most
  significant bit first: a field of the address layout read as a big-endian number.
\<close>

definition window_value :: "byte list \<Rightarrow> nat \<Rightarrow> nat \<Rightarrow> nat" where
  "window_value buf start n =
     foldl (\<lambda>acc k. 2 * acc + (if bit_at buf k then 1 else 0)) 0 [start ..< start + n]"

text \<open>
  The value built by the repository's example \<open>ExampleMGTP4IPv6Dst\<close>: prefix
  \<open>3fff::/20\<close>, IPv4 address 203.0.113.1, \<open>NewArgsMobSession(0, false, false, 1)\<close>.
\<close>

definition ExampleMGTP4IPv6Dst :: MGTP4IPv6Dst where
  "ExampleMGTP4IPv6Dst =
     NewMGTP4IPv6Dst \<lparr>Addr = [0x3F, 0xFF, 0, 0, 0, 0, 0, 0, 0, 0, 0, 0, 0, 0, 0, 0], Bits = 20\<rparr>
       [203, 0, 113, 1] (NewArgsMobSession 0 False False 1)"

text \<open>
  A source address for concrete runs: prefix \<open>2001:db8:ff00::/40\<close>, IPv4 address
  10.0.0.1, UDP port 12345.
\<close>

definition ExampleMGTP4IPv6Src :: MGTP4IPv6Src where
  "ExampleMGTP4IPv6Src =
     NewMGTP4IPv6Src \<lparr>Addr = [0x20, 0x01, 0x0D, 0xB8, 0xFF, 0, 0, 0, 0, 0, 0, 0, 0, 0, 0, 0], Bits = 40\<rparr>
       [10, 0, 0, 1] 12345"

text \<open>Two buffers of one length that agree on their first \<open>n\<close> bytes.\<close>

definition agree :: "nat \<Rightarrow> byte list \<Rightarrow> byte list \<Rightarrow> bool" where
  "agree n xs ys = (length xs = length ys \<and> take n xs = take n ys)"

section \<open>Lengths and success of the codec operations\<close>

lemma length_copy_at: "length (copy_at dst k bs) = length dst"
  by (induction bs arbitrary: dst k) simp_all

lemma length_init_left: "length (init_left off i bs ret) = length ret"
  by (induction bs arbitrary: ret i) simp_all

lemma length_init_right: "length (init_right off i bs ret) = length ret"
  by (induction bs arbitrary: ret i) simp_all

lemma length_add_right: "length (add_right off k bs sl) = length sl"
  by (induction bs arbitrary: sl k) simp_all

lemma length_add_left: "length (add_left off k bs sl) = length sl"
  by (induction bs arbitrary: sl k) simp_all

lemma AppendToSlice_length:
  "AppendToSlice sl endBit a = Inr sl' \<Longrightarrow> length sl' = length sl"
  by (auto simp: AppendToSlice_def Let_def length_copy_at length_add_left length_add_right
      split: if_splits)

lemma AppendToSlice_error:
  "AppendToSlice sl endBit a = Inl e \<Longrightarrow> e = ErrTooShortToMarshal"
  by (auto simp: AppendToSlice_def Let_def split: if_splits)

lemma ArgsMobSession_Marshal_ok:
  "\<exists>bs. ArgsMobSession_Marshal a = Inr bs \<and> length bs = 5"
  by (simp add: ArgsMobSession_Marshal_def ArgsMobSession_MarshalTo_def
      ArgsMobSession_MarshalLen_def length_copy_at Let_def)

lemma slice_range_ok:
  "lo \<le> hi \<Longrightarrow> unat hi \<le> length a \<Longrightarrow>
     \<exists>s. slice_range a lo hi = Inr s \<and> length s = unat hi - unat lo"
  by (simp add: slice_range_def)

text \<open>Sums and products of small unsigned values do not wrap.\<close>

lemma unat_small_sum:
  fixes a b :: uint
  assumes "unat a + unat b \<le> 1000"
  shows "unat (a + b) = unat a + unat b"
proof -
  have "unat a + unat b < 2 ^ LENGTH(64)" using assms by simp
  then show ?thesis by (simp only: unat_add_lem)
qed

lemma unat_times8:
  fixes a :: uint
  assumes "unat a \<le> 100"
  shows "unat (a * 8) = unat a * 8"
proof -
  have "unat a * unat (8 :: uint) < 2 ^ LENGTH(64)" using assms by simp
  then have "unat (a * 8) = unat a * unat (8 :: uint)" by (simp only: unat_mult_lem)
  then show ?thesis by simp
qed

text \<open>
  A window of at least one byte that fits into the 128 bits is extracted without error
  and without panic, and the result has the requested length.
\<close>

lemma FromIPv6_ok:
  fixes startBit len :: uint
  assumes "length ipv6 = 16" and "0 < unat len" and "unat startBit + 8 * unat len \<le> 128"
  shows "\<exists>bs. FromIPv6 ipv6 startBit len = Inr bs \<and> length bs = unat len"
proof -
  let ?sb = "startBit div 8"
  have l16: "unat len \<le> 16" using assms by simp
  have c1: "\<not> 16 < len" using l16 by (simp add: word_less_nat_alt)
  have u8: "unat (len * 8) = unat len * 8" using l16 by (simp add: unat_times8)
  have us: "unat (startBit + len * 8) = unat startBit + unat len * 8"
    using assms u8 by (simp add: unat_small_sum)
  have c2: "\<not> 8 * 16 < startBit + len * 8" using assms us by (simp add: word_less_nat_alt)
  have ud: "unat ?sb = unat startBit div 8" by (simp add: unat_div)
  have ue: "unat (?sb + len) = unat startBit div 8 + unat len"
    using assms ud by (simp add: unat_small_sum)
  have u1: "unat (?sb + 1) = unat startBit div 8 + 1"
    using assms ud by (simp add: unat_small_sum)
  have r1: "?sb \<le> ?sb + len" using ud ue by (simp add: word_le_nat_alt)
  have r2: "unat (?sb + len) \<le> length ipv6" using assms ue by simp
  have r3: "?sb + 1 \<le> ?sb + len" using u1 ue assms by (simp add: word_le_nat_alt)
  from slice_range_ok [OF r1 r2] obtain s1 where
    s1: "slice_range ipv6 ?sb (?sb + len) = Inr s1" by blast
  from slice_range_ok [OF r3 r2] obtain s2 where
    s2: "slice_range ipv6 (?sb + 1) (?sb + len) = Inr s2" by blast
  show ?thesis using c1 c2 s1 s2
    by (simp add: FromIPv6_def Let_def length_copy_at length_init_left length_init_right)
qed

text \<open>Conversions between the bytes, the unsigned words and the numbers of the prefix length.\<close>

lemma mask_val: "ipv6LenEncodingMask = 0x7F"
  by (simp add: len_consts)

lemma unat_ucast_byte: "unat (ucast (w :: byte) :: uint) = unat w"
proof -
  have "unat w < 2 ^ LENGTH(8)" by (rule unsigned_less)
  then have "unat w < 2 ^ 64" by simp
  then show ?thesis by (simp add: unsigned_ucast_eq take_bit_nat_eq_self)
qed

lemma and7f_le: "unat ((w :: byte) AND 0x7F) \<le> 127"
proof -
  have "w AND 0x7F \<le> 0x7F" by (rule word_and_le1)
  then show ?thesis by (simp add: word_le_nat_alt)
qed

lemma two_bytes: "length (bs :: byte list) = 2 \<Longrightarrow> \<exists>s0 s1. bs = [s0, s1]"
  by (cases bs; simp; cases "tl bs"; auto)

lemma unat_of_small_int:
  assumes "0 \<le> n" and "n \<le> 1000"
  shows "unat (word_of_int n :: uint) = nat n"
proof -
  have "n mod 2 ^ LENGTH(64) = n" using assms by simp
  then have "uint (word_of_int n :: uint) = n" by (simp only: uint_word_of_int)
  then show ?thesis by (simp add: unat_eq_nat_uint)
qed

lemma low7_of_int:
  assumes "0 \<le> n" and "n \<le> 127"
  shows "uint ((word_of_int n :: byte) AND 0x7F) = n"
proof -
  have m: "(0x7F :: byte) = mask 7" by (simp add: mask_eq_exp_minus_1)
  have t: "take_bit 7 n = n" using assms by (simp add: take_bit_int_eq_self)
  have "n mod 2 ^ LENGTH(8) = n" using assms by simp
  then have "uint (word_of_int n :: byte) = n" by (simp only: uint_word_of_int)
  then show ?thesis unfolding m by (simp only: and_mask_wi t)
qed

text \<open>The capacity check and the branches of AppendToSlice, read on natural numbers.\<close>

lemma AppendToSlice_nat:
  assumes "unat endBit = k"
  shows "AppendToSlice sl endBit a =
     (if (if 0 < k mod 8 then 1 else 0) + k div 8 + length a > length sl
      then Inl ErrTooShortToMarshal
      else if k mod 8 = 0 then Inr (copy_at sl (k div 8) a)
      else Inr (add_left (k mod 8) (k div 8 + 1) a (add_right (k mod 8) (k div 8) a sl)))"
proof -
  have d: "unat (endBit div 8) = k div 8" using assms by (simp add: unat_div)
  have m: "unat (endBit mod 8) = k mod 8" using assms by (simp add: unat_mod)
  have z: "(endBit mod 8 = 0) = (k mod 8 = 0)" using m unat_0_iff [of "endBit mod 8"] by simp
  have p: "(0 < endBit mod 8) = (0 < k mod 8)" using z by (simp add: word_greater_zero_iff)
  show ?thesis unfolding AppendToSlice_def Let_def d m z p by simp
qed

lemma no_room_for_args:
  fixes k :: nat
  assumes "88 < k"
  shows "16 < (if 0 < k mod 8 then 1 else 0) + k div 8 + (5 :: nat)"
  using assms by (simp split: if_splits) presburger

section \<open>Buffers that agree on their first bytes\<close>

lemma agree_nth: "agree n xs ys \<Longrightarrow> k < n \<Longrightarrow> xs ! k = ys ! k"
  by (metis agree_def nth_take)

lemma agree_update: "agree n xs ys \<Longrightarrow> agree n (xs[k := v]) (ys[k := v])"
  by (simp add: agree_def take_update_swap)

lemma agree_or:
  assumes "agree n xs ys"
  shows "agree n (xs[k := (xs ! k) OR v]) (ys[k := (ys ! k) OR v])"
proof (cases "k < n")
  case True
  then have "xs ! k = ys ! k" using assms by (rule agree_nth [rotated])
  then show ?thesis using assms by (simp add: agree_update)
next
  case False
  then show ?thesis using assms by (simp add: agree_def)
qed

lemma agree_copy_at: "agree n xs ys \<Longrightarrow> agree n (copy_at xs k bs) (copy_at ys k bs)"
  by (induction bs arbitrary: xs ys k) (simp_all add: agree_update)

lemma agree_add_right:
  "agree n xs ys \<Longrightarrow> agree n (add_right off k bs xs) (add_right off k bs ys)"
  by (induction bs arbitrary: xs ys k) (simp_all add: agree_or)

lemma agree_add_left:
  "agree n xs ys \<Longrightarrow> agree n (add_left off k bs xs) (add_left off k bs ys)"
  by (induction bs arbitrary: xs ys k) (simp_all add: agree_or)

lemma agree_AppendToSlice:
  assumes "agree n xs ys"
    and "AppendToSlice xs endBit a = Inr xs'" and "AppendToSlice ys endBit a = Inr ys'"
  shows "agree n xs' ys'"
  using assms
  by (auto simp: AppendToSlice_def Let_def agree_copy_at agree_add_left agree_add_right
      split: if_splits)

text \<open>Copying 16 bytes to the start of a buffer fixes its first 16 bytes.\<close>

lemma nth_copy_at:
  "j < length dst \<Longrightarrow>
     copy_at dst k bs ! j = (if k \<le> j \<and> j < k + length bs then bs ! (j - k) else dst ! j)"
proof (induction bs arbitrary: dst k)
  case Nil
  then show ?case by auto
next
  case (Cons b bs)
  then show ?case by (auto simp: nth_Cons' nth_list_update length_copy_at)
qed

lemma take_copy_at_0:
  assumes "length bs = n" and "n \<le> length dst"
  shows "take n (copy_at dst 0 bs) = bs"
proof (rule nth_equalityI)
  show "length (take n (copy_at dst 0 bs)) = length bs"
    using assms by (simp add: length_copy_at)
next
  fix i assume "i < length (take n (copy_at dst 0 bs))"
  then have i: "i < n" by simp
  then show "take n (copy_at dst 0 bs) ! i = bs ! i"
    using assms by (simp add: nth_copy_at)
qed

lemma agree_prefix_copy:
  assumes "length b1 = length b2" and "16 \<le> length b1" and "length a = 16"
  shows "agree 16 (copy_at b1 0 a) (copy_at b2 0 a)"
  using assms by (simp add: agree_def length_copy_at take_copy_at_0)

section \<open>What the operations return\<close>

text \<open>At an offset that is a multiple of 8, FromIPv6 returns the bytes of the window.\<close>

lemma FromIPv6_aligned:
  fixes startBit len :: uint
  assumes "length ipv6 = 16" and "unat startBit + 8 * unat len \<le> 128"
    and "unat startBit mod 8 = 0"
  shows "FromIPv6 ipv6 startBit len = Inr (take (unat len) (drop (unat startBit div 8) ipv6))"
proof -
  let ?sb = "startBit div 8"
  have l16: "unat len \<le> 16" using assms by simp
  have c1: "\<not> 16 < len" using l16 by (simp add: word_less_nat_alt)
  have u8: "unat (len * 8) = unat len * 8" using l16 by (simp add: unat_times8)
  have us: "unat (startBit + len * 8) = unat startBit + unat len * 8"
    using assms u8 by (simp add: unat_small_sum)
  have c2: "\<not> 8 * 16 < startBit + len * 8" using assms us by (simp add: word_less_nat_alt)
  have ud: "unat ?sb = unat startBit div 8" by (simp add: unat_div)
  have um: "unat (startBit mod 8) = 0" using assms by (simp add: unat_mod)
  have z: "startBit mod 8 = 0" using um unat_0_iff [of "startBit mod 8"] by simp
  have ue: "unat (?sb + len) = unat startBit div 8 + unat len"
    using assms ud by (simp add: unat_small_sum)
  have r1: "?sb \<le> ?sb + len" using ud ue by (simp add: word_le_nat_alt)
  have r2: "unat (?sb + len) \<le> length ipv6" using assms ue by simp
  let ?s = "take (unat len) (drop (unat startBit div 8) ipv6)"
  have s: "slice_range ipv6 ?sb (?sb + len) = Inr ?s"
    using r1 r2 by (simp add: slice_range_def ue ud)
  have ls: "length ?s = unat len" using assms by simp
  have "take (unat len) (copy_at (replicate (unat len) 0) 0 ?s) = ?s"
    using ls by (intro take_copy_at_0) simp_all
  then have "copy_at (replicate (unat len) 0) 0 ?s = ?s" by (simp add: length_copy_at)
  then show ?thesis using c1 c2 z s by (simp add: FromIPv6_def Let_def)
qed

lemma nth_init_left:
  "j < length ret \<Longrightarrow>
     init_left off i bs ret ! j =
       (if i \<le> j \<and> j < i + length bs then push_bit off (bs ! (j - i)) else ret ! j)"
proof (induction bs arbitrary: ret i)
  case Nil
  then show ?case by auto
next
  case (Cons b bs)
  then show ?case by (auto simp: nth_Cons' nth_list_update length_init_left)
qed

lemma nth_init_right:
  "j < length ret \<Longrightarrow>
     init_right off i bs ret ! j =
       (if i \<le> j \<and> j < i + length bs then (ret ! j) OR drop_bit (8 - off) (bs ! (j - i))
        else ret ! j)"
proof (induction bs arbitrary: ret i)
  case Nil
  then show ?case by auto
next
  case (Cons b bs)
  show ?case
  proof (cases "j = i")
    case True
    then show ?thesis using Cons by (simp add: nth_list_update)
  next
    case False
    then show ?thesis using Cons by (auto simp: nth_Cons' nth_list_update)
  qed
qed

text \<open>
  What FromIPv6 returns at an offset that is not a multiple of 8: byte \<open>j\<close> of the result
  is source byte \<open>startByte + j\<close> shifted left, and only for \<open>j + 1 < length\<close> the
  shifted next source byte is added. The last byte is the shifted source byte alone.
\<close>

lemma FromIPv6_unaligned:
  fixes startBit len :: uint
  assumes "length ipv6 = 16" and "0 < unat len" and "unat startBit + 8 * unat len \<le> 128"
    and "unat startBit mod 8 \<noteq> 0" and "j < unat len"
  shows "\<exists>bs. FromIPv6 ipv6 startBit len = Inr bs \<and> length bs = unat len
          \<and> bs ! j = (if j + 1 < unat len
                      then push_bit (unat startBit mod 8) (ipv6 ! (unat startBit div 8 + j))
                           OR drop_bit (8 - unat startBit mod 8)
                                (ipv6 ! (unat startBit div 8 + j + 1))
                      else push_bit (unat startBit mod 8) (ipv6 ! (unat startBit div 8 + j)))"
proof -
  let ?sb = "startBit div 8"
  let ?off = "unat startBit mod 8"
  have l16: "unat len \<le> 16" using assms by simp
  have c1: "\<not> 16 < len" using l16 by (simp add: word_less_nat_alt)
  have u8: "unat (len * 8) = unat len * 8" using l16 by (simp add: unat_times8)
  have us: "unat (startBit + len * 8) = unat startBit + unat len * 8"
    using assms u8 by (simp add: unat_small_sum)
  have c2: "\<not> 8 * 16 < startBit + len * 8" using assms us by (simp add: word_less_nat_alt)
  have ud: "unat ?sb = unat startBit div 8" by (simp add: unat_div)
  have um: "unat (startBit mod 8) = ?off" by (simp add: unat_mod)
  have nz: "startBit mod 8 \<noteq> 0" using um assms(4) unat_0_iff [of "startBit mod 8"] by simp
  have ue: "unat (?sb + len) = unat startBit div 8 + unat len"
    using assms ud by (simp add: unat_small_sum)
  have u1: "unat (?sb + 1) = unat startBit div 8 + 1"
    using assms ud by (simp add: unat_small_sum)
  have r1: "?sb \<le> ?sb + len" using ud ue by (simp add: word_le_nat_alt)
  have r2: "unat (?sb + len) \<le> length ipv6" using assms ue by simp
  have r3: "?sb + 1 \<le> ?sb + len" using u1 ue assms by (simp add: word_le_nat_alt)
  let ?s1 = "take (unat len) (drop (unat startBit div 8) ipv6)"
  let ?s2 = "take (unat len - 1) (drop (unat startBit div 8 + 1) ipv6)"
  have s1: "slice_range ipv6 ?sb (?sb + len) = Inr ?s1"
    using r1 r2 by (simp add: slice_range_def ue ud)
  have s2: "slice_range ipv6 (?sb + 1) (?sb + len) = Inr ?s2"
    using r3 r2 by (simp add: slice_range_def ue u1)
  let ?res = "init_right ?off 0 ?s2 (init_left ?off 0 ?s1 (replicate (unat len) 0))"
  have run: "FromIPv6 ipv6 startBit len = Inr ?res"
    using c1 c2 nz s1 s2 by (simp add: FromIPv6_def Let_def um)
  have fit: "unat startBit div 8 + unat len \<le> 16" using assms by simp
  have ls1: "length ?s1 = unat len" using assms fit by simp
  have ls2: "length ?s2 = unat len - 1" using assms fit by simp
  have left: "init_left ?off 0 ?s1 (replicate (unat len) 0) ! j
                = push_bit ?off (ipv6 ! (unat startBit div 8 + j))"
    using assms(5) ls1 fit assms(1) by (simp add: nth_init_left)
  have "?res ! j = (if j < unat len - 1
                    then push_bit ?off (ipv6 ! (unat startBit div 8 + j))
                         OR drop_bit (8 - ?off) (?s2 ! j)
                    else push_bit ?off (ipv6 ! (unat startBit div 8 + j)))"
    using assms(5) ls2 left by (simp add: nth_init_right length_init_left)
  moreover have "?s2 ! j = ipv6 ! (unat startBit div 8 + j + 1)" if "j < unat len - 1"
    using that fit assms(1) by (simp add: add.commute add.left_commute)
  ultimately have "?res ! j = (if j + 1 < unat len
                      then push_bit ?off (ipv6 ! (unat startBit div 8 + j))
                           OR drop_bit (8 - ?off) (ipv6 ! (unat startBit div 8 + j + 1))
                      else push_bit ?off (ipv6 ! (unat startBit div 8 + j)))"
    by (simp add: less_diff_conv)
  then show ?thesis using run by (simp add: length_init_right length_init_left)
qed

text \<open>
  Every prefix length with room for the IPv4 address and none for the argument block:
  the extraction of the block reports ErrOutOfRange, the parser ErrTooShortToParse.
\<close>

lemma ParseMGTP4IPv6Dst_no_room:
  fixes prefixLength :: uint
  assumes "length ipv6Addr = 16" and "unat prefixLength + 32 \<le> 128"
    and "unat prefixLength + 32 + 40 > 128"
  shows "FromIPv6 ipv6Addr (prefixLength + 8 * 4) 5 = Inl ErrOutOfRange
       \<and> ParseMGTP4IPv6Dst ipv6Addr prefixLength = Inl ErrTooShortToParse"
proof -
  have u32: "unat (prefixLength + 32) = unat prefixLength + 32"
    using assms unat_small_sum [of prefixLength 32] by simp
  have u72: "unat (prefixLength + 32 + 5 * 8) = unat prefixLength + 72"
    using assms u32 unat_small_sum [of "prefixLength + 32" 40] by simp
  have g: "8 * 16 < prefixLength + 32 + 5 * 8" using u72 assms by (simp add: word_less_nat_alt)
  have e: "FromIPv6 ipv6Addr (prefixLength + 8 * 4) 5 = Inl ErrOutOfRange"
    using g by (simp add: FromIPv6_def)
  from FromIPv6_ok [of ipv6Addr 4 prefixLength] assms obtain src where
    "FromIPv6 ipv6Addr prefixLength 4 = Inr src" by auto
  then have "ParseMGTP4IPv6Dst ipv6Addr prefixLength = Inl ErrTooShortToParse"
    using e by (simp add: ParseMGTP4IPv6Dst_def Let_def returned_slice_def
        ParseArgsMobSession_def UnmarshalBinary_def)
  with e show ?thesis by simp
qed

text \<open>
  ParseMGTP4IPv6Src for every prefix length below \<open>2^64 - 32\<close>, where the unsigned sum of
  its range check does not wrap.
\<close>

lemma ParseMGTP4IPv6Src_no_wrap:
  fixes prefixLen :: uint
  assumes "length addr = 16" and "unat prefixLen + 32 < 2 ^ 64"
  shows "(prefixLen = 0 \<longrightarrow> ParseMGTP4IPv6Src addr prefixLen = Inl ErrPrefixLength)
       \<and> (prefixLen \<noteq> 0 \<and> unat prefixLen + 32 > 128 \<longrightarrow>
            ParseMGTP4IPv6Src addr prefixLen = Inl ErrOutOfRange)
       \<and> (prefixLen \<noteq> 0 \<and> unat prefixLen + 32 \<le> 128 \<longrightarrow>
            (\<exists>res. ParseMGTP4IPv6Src addr prefixLen = Inr res \<and> udp res = 0))"
proof -
  have "unat prefixLen + unat (32 :: uint) < 2 ^ LENGTH(64)" using assms by simp
  then have "unat (prefixLen + 32) = unat prefixLen + unat (32 :: uint)"
    by (simp only: unat_add_lem)
  then have u32: "unat (prefixLen + 32) = unat prefixLen + 32" by simp
  have g: "(8 * 16 < prefixLen + 8 * 4) = (128 < unat prefixLen + 32)"
    using u32 by (simp add: word_less_nat_alt)
  have ok: "\<exists>res. ParseMGTP4IPv6Src addr prefixLen = Inr res \<and> udp res = 0"
    if "prefixLen \<noteq> 0" and "unat prefixLen + 32 \<le> 128"
  proof -
    from FromIPv6_ok [of addr 4 prefixLen] assms that obtain src where
      "FromIPv6 addr prefixLen 4 = Inr src" by auto
    then show ?thesis using that g by (simp add: ParseMGTP4IPv6Src_def Let_def)
  qed
  show ?thesis using g ok by (auto simp: ParseMGTP4IPv6Src_def)
qed

text \<open>
  The NextMN parser by the prefix length \<open>p > 0\<close> found in byte 15: ErrOutOfRange when
  the IPv4 address fits and the port with the length field does not; otherwise the result
  of the basic parser with the port that \<open>Uint16\<close> reads from the two bytes FromIPv6
  returns at bit \<open>p + 32\<close> (lemmas \<open>FromIPv6_aligned\<close> and \<open>FromIPv6_unaligned\<close> say
  which bytes these are).
\<close>

lemma ParseMGTP4IPv6SrcNextMN_cases:
  assumes len: "length addr = 16"
    and p: "p = unat (addr ! 15 AND 0x7F)"
    and pos: "0 < p"
  shows "(p + 32 \<le> 128 \<and> p + 32 + 16 + 7 > 128 \<longrightarrow>
            ParseMGTP4IPv6SrcNextMN addr = Inl ErrOutOfRange)
       \<and> (p + 32 + 16 + 7 \<le> 128 \<longrightarrow>
            (\<exists>res s0 s1.
                ParseMGTP4IPv6Src addr (of_nat p) = Inr res
              \<and> FromIPv6 addr (of_nat p + 32) 2 = Inr [s0, s1]
              \<and> ParseMGTP4IPv6SrcNextMN addr = Inr (res\<lparr>udp := Uint16 [s0, s1]\<rparr>)))"
proof -
  define w :: uint where "w = ucast (addr ! 15 AND 0x7F)"
  have uw: "unat w = p" by (simp add: w_def p unat_ucast_byte)
  have wp: "of_nat p = w" using uw by auto
  have p127: "p \<le> 127" using and7f_le p by simp
  have w0: "w \<noteq> 0" using pos uw unat_gt_0 [of w] by simp
  have u32: "unat (w + 8 * 4) = p + 32" using uw p127 unat_small_sum [of w 32] by simp
  have u55: "unat (w + 8 * 4 + 16 + of_nat ipv6LenEncodingSizeBit) = p + 55"
  proof -
    have "w + 8 * 4 + 16 + of_nat ipv6LenEncodingSizeBit = w + 55"
      by (simp add: len_consts)
    moreover have "unat (w + 55) = p + 55" using uw p127 unat_small_sum [of w 55] by simp
    ultimately show ?thesis by (simp only:)
  qed
  have pl: "ucast (ipv6LenEncodingMask AND drop_bit ipv6LenEncodingPosBit (addr ! ipv6LenEncodingPosByte)) = w"
    by (simp add: w_def len_consts word_bw_comms)
  have basic: "p \<le> 96 \<Longrightarrow> \<exists>res. ParseMGTP4IPv6Src addr w = Inr res" 
  proof -
    assume a: "p \<le> 96"
    have g: "\<not> 8 * 16 < w + 8 * 4" using u32 a by (simp add: word_less_nat_alt)
    from FromIPv6_ok [of addr 4 w] len uw a obtain bs where "FromIPv6 addr w 4 = Inr bs" by auto
    then show ?thesis using w0 g by (simp add: ParseMGTP4IPv6Src_def Let_def)
  qed
  have part1: "ParseMGTP4IPv6SrcNextMN addr = Inl ErrOutOfRange" if a: "p + 32 \<le> 128" "p + 32 + 16 + 7 > 128"
  proof -
    from basic a obtain res where res: "ParseMGTP4IPv6Src addr w = Inr res" by auto
    have g: "8 * 16 < w + 8 * 4 + 16 + of_nat ipv6LenEncodingSizeBit"
      using u55 a by (simp add: word_less_nat_alt)
    show ?thesis unfolding ParseMGTP4IPv6SrcNextMN_def pl Let_def using res g by simp
  qed
  have part2: "\<exists>res s0 s1. ParseMGTP4IPv6Src addr (of_nat p) = Inr res
              \<and> FromIPv6 addr (of_nat p + 32) 2 = Inr [s0, s1]
              \<and> ParseMGTP4IPv6SrcNextMN addr = Inr (res\<lparr>udp := Uint16 [s0, s1]\<rparr>)" if a: "p + 32 + 16 + 7 \<le> 128"
  proof -
    from basic a obtain res where res: "ParseMGTP4IPv6Src addr w = Inr res" by auto
    have g: "\<not> 8 * 16 < w + 8 * 4 + 16 + of_nat ipv6LenEncodingSizeBit"
      using u55 a by (simp add: word_less_nat_alt)
    from FromIPv6_ok [of addr 2 "w + 8 * 4"] len u32 a obtain bs where
      bs: "FromIPv6 addr (w + 8 * 4) 2 = Inr bs" "length bs = 2" by auto
    from two_bytes [OF bs(2)] obtain s0 s1 where s: "bs = [s0, s1]" by blast
    have "ParseMGTP4IPv6SrcNextMN addr = Inr (res\<lparr>udp := Uint16 [s0, s1]\<rparr>)"
      unfolding ParseMGTP4IPv6SrcNextMN_def pl Let_def using res g bs s by simp
    then show ?thesis using res bs s wp by auto
  qed
  show ?thesis using part1 part2 by blast
qed

text \<open>
  MarshalTo of a source address with a well-formed prefix: on success byte 15 is the
  prefix length converted to a byte; its low 7 bits are the prefix length when that is at
  most 127, as it is whenever the buffer has fewer than 22 bytes.
\<close>

lemma MGTP4IPv6Src_MarshalTo_byte15:
  assumes ok: "MGTP4IPv6Src_MarshalTo m b = Inr b'"
    and pfx: "prefix_ok (src_prefix m)"
    and ip: "length (src_ipv4 m) = 4"
  shows "b' ! 15 = word_of_int (Bits (src_prefix m))
       \<and> 0 \<le> Bits (src_prefix m)
       \<and> (Bits (src_prefix m) \<le> 127 \<longrightarrow> uint (b' ! 15 AND 0x7F) = Bits (src_prefix m))
       \<and> (length b < 22 \<longrightarrow> Bits (src_prefix m) \<le> 127)"
proof -
  let ?bits = "Bits (src_prefix m)"
  let ?b0 = "copy_at b 0 (Addr (src_prefix m))"
  let ?udpB = "copy_at (replicate 2 0) 0 (PutUint16 (udp m))"
  from ok have lb: "16 \<le> length b" and nm: "?bits \<noteq> - 1"
    by (auto simp: MGTP4IPv6Src_MarshalTo_def MGTP4IPv6Src_MarshalLen_def Let_def
        split: if_splits)
  from ok lb nm obtain b1 b2 where
    a1: "AppendToSlice ?b0 (word_of_int ?bits) (src_ipv4 m) = Inr b1" and
    a2: "AppendToSlice b1 (word_of_int (?bits + 8 * 4)) ?udpB = Inr b2" and
    out: "b' = b2[ipv6LenEncodingPosByte := word_of_int ?bits]"
    by (auto simp: MGTP4IPv6Src_MarshalTo_def MGTP4IPv6Src_MarshalLen_def Let_def
        split: if_splits sum.splits)
  have l1: "length b1 = length b" using AppendToSlice_length [OF a1] by (simp add: length_copy_at)
  have l2: "length b2 = length b" using AppendToSlice_length [OF a2] l1 by simp
  have byte: "b' ! 15 = word_of_int ?bits" using out l2 lb by (simp add: len_consts)
  have nonneg: "0 \<le> ?bits" using pfx nm by (simp add: prefix_ok_def)
  have le: "?bits \<le> 128" using pfx by (simp add: prefix_ok_def)
  have low: "uint (b' ! 15 AND 0x7F) = ?bits" if "?bits \<le> 127"
    unfolding byte using nonneg that by (rule low7_of_int)
  have short: "?bits \<le> 127" if s: "length b < 22"
  proof (rule ccontr)
    assume "\<not> ?bits \<le> 127"
    with le have e: "?bits = 128" by simp
    have k1: "unat (word_of_int ?bits :: uint) = 128" using e by simp
    have k2: "unat (word_of_int (?bits + 8 * 4) :: uint) = 160" using e by simp
    from a1 have "20 \<le> length b"
      unfolding AppendToSlice_nat [OF k1] using ip by (simp add: length_copy_at split: if_splits)
    moreover from a2 have "22 \<le> length b1"
      unfolding AppendToSlice_nat [OF k2]
      by (simp add: length_copy_at PutUint16_def split: if_splits)
    ultimately show False using s l1 by simp
  qed
  show ?thesis using byte nonneg low short by blast
qed

section \<open>The claims\<close>

text \<open>
  C1 (fails on the code). The claim: parsing the 16 bytes that Marshal produces, with the
  same prefix length, gives back the value that was marshalled. The example value of the
  repository has a canonical /20 prefix and room for all fields; Marshal succeeds, and
  parsing its output at prefix length 20 succeeds with the last IPv4 byte 0 instead of 1
  and the session ID 0 instead of 1.
\<close>

theorem C1_roundtrip_example:
  "canonical (dst_prefix ExampleMGTP4IPv6Dst)
   \<and> Bits (dst_prefix ExampleMGTP4IPv6Dst) + 32 + 40 \<le> 128
   \<and> MGTP4IPv6Dst_Marshal ExampleMGTP4IPv6Dst
       = Inr [0x3F, 0xFF, 0x0C, 0xB0, 0x07, 0x10, 0x10, 0, 0, 0, 0, 0x10, 0, 0, 0, 0]
   \<and> ParseMGTP4IPv6Dst [0x3F, 0xFF, 0x0C, 0xB0, 0x07, 0x10, 0x10, 0, 0, 0, 0, 0x10, 0, 0, 0, 0] 20
       = Inr \<lparr>dst_prefix = dst_prefix ExampleMGTP4IPv6Dst, dst_ipv4 = [203, 0, 113, 0],
              dst_argsMobSession = NewArgsMobSession 0 False False 0\<rparr>
   \<and> ParseMGTP4IPv6Dst [0x3F, 0xFF, 0x0C, 0xB0, 0x07, 0x10, 0x10, 0, 0, 0, 0, 0x10, 0, 0, 0, 0] 20
       \<noteq> Inr ExampleMGTP4IPv6Dst"
  by code_simp

text \<open>
  C2 (fails on the code). The claim: at a bit offset that is not a multiple of 8, every
  byte \<open>i\<close> of the result of FromIPv6, the last one too, is source byte \<open>startByte+i\<close>
  shifted left by the offset, OR source byte \<open>startByte+i+1\<close> shifted right by 8 minus the
  offset. For the buffer 00 F0 00 ..., start bit 4 and length 1 that byte is 0F; FromIPv6
  returns 00.
\<close>

theorem C2_last_byte_example:
  "FromIPv6 [0x00, 0xF0, 0, 0, 0, 0, 0, 0, 0, 0, 0, 0, 0, 0, 0, 0] 4 1 = Inr [0x00]
   \<and> push_bit 4 (0x00 :: byte) OR drop_bit (8 - 4) (0xF0 :: byte) = 0x0F"
  by code_simp

text \<open>
  C3 (fails on the code). The claim: FromIPv6 at a start bit, then AppendToSlice of the
  result at the same bit into a zeroed 16-byte buffer, reproduces the bits of the window
  and leaves the others zero. For the all-ones buffer, start bit 4 and length 1, the
  window is bits 4 to 11; bit 8 is set in the buffer and clear in the result.
\<close>

theorem C3_window_example:
  "FromIPv6 (replicate 16 0xFF) 4 1 = Inr [0xF0]
   \<and> AppendToSlice (replicate 16 0) 4 [0xF0] = Inr (0x0F # replicate 15 0)
   \<and> bit_at (replicate 16 0xFF) 8 \<and> \<not> bit_at (0x0F # replicate 15 0) 8"
  by code_simp

text \<open>
  C4 (fails on the code). The claim: an error of a sub-field operation of
  ParseMGTP4IPv6Dst reaches the caller unchanged, so a prefix length with room for the
  IPv4 address but not for the argument block gives the out-of-range error of the 5-byte
  extraction. At prefix length 64 that extraction returns ErrOutOfRange, and
  ParseMGTP4IPv6Dst returns ErrTooShortToParse.
\<close>

theorem C4_error_replaced_example:
  "FromIPv6 (replicate 16 0) (64 + 8 * 4) 5 = Inl ErrOutOfRange
   \<and> ParseMGTP4IPv6Dst (replicate 16 0) 64 = Inl ErrTooShortToParse"
  by code_simp

text \<open>
  C5. Marshal of ArgsMobSession with qfi 0, both flags false and session ID 1 is the five
  bytes 00 00 00 00 01; with qfi 63, both flags true and session ID 0xFFFFFFFF it is
  FF FF FF FF FF.
\<close>

theorem C5_marshal_examples:
  "ArgsMobSession_Marshal (NewArgsMobSession 0 False False 1) = Inr [0x00, 0x00, 0x00, 0x00, 0x01]
   \<and> ArgsMobSession_Marshal (NewArgsMobSession 63 True True 0xFFFFFFFF)
       = Inr [0xFF, 0xFF, 0xFF, 0xFF, 0xFF]"
  by code_simp

text \<open>
  C6 (fails on the code). The claim: for every prefix length, ParseMGTP4IPv6Src returns
  ErrPrefixLength exactly at 0, ErrOutOfRange when the length plus 32 exceeds 128, and a
  value otherwise. At the prefix length \<open>2^64 - 32\<close> the unsigned sums of both range
  checks wrap around to 0, and the slice expression of FromIPv6 panics.
\<close>

theorem C6_wraparound_example:
  "ParseMGTP4IPv6Src (replicate 16 0) 18446744073709551584 = Inl RuntimePanic"
  by (simp add: ParseMGTP4IPv6Src_def FromIPv6_def slice_range_def Let_def)

text \<open>
  C7 (fails on the code). The claim: when the prefix length \<open>p\<close> in the low 7 bits of
  byte 15 leaves room, the NextMN parser returns as UDP port the two bytes at bit offset
  \<open>p + 32\<close>, read big-endian. Marshal of the source address with prefix
  \<open>2001:db8:fff0::/44\<close>, IPv4 address 10.0.0.1 and port 0xFFFF gives an address whose
  byte 15 holds 44 and whose 16 bits from bit 76 on spell 0xFFFF; the parser returns the
  port 0xFFF0 (and the IPv4 address 10.0.0.0).
\<close>

theorem C7_port_example:
  "MGTP4IPv6Src_Marshal
      (NewMGTP4IPv6Src
         \<lparr>Addr = [0x20, 0x01, 0x0D, 0xB8, 0xFF, 0xF0, 0, 0, 0, 0, 0, 0, 0, 0, 0, 0], Bits = 44\<rparr>
         [10, 0, 0, 1] 0xFFFF)
     = Inr [0x20, 0x01, 0x0D, 0xB8, 0xFF, 0xF0, 0xA0, 0x00, 0x00, 0x1F, 0xFF, 0xF0, 0, 0, 0, 0x2C]
   \<and> unat ([0x20, 0x01, 0x0D, 0xB8, 0xFF, 0xF0, 0xA0, 0x00, 0x00, 0x1F, 0xFF, 0xF0, 0, 0, 0,
             0x2C :: byte] ! 15 AND 0x7F) = 44
   \<and> window_value
         [0x20, 0x01, 0x0D, 0xB8, 0xFF, 0xF0, 0xA0, 0x00, 0x00, 0x1F, 0xFF, 0xF0, 0, 0, 0, 0x2C]
         (44 + 32) 16 = 0xFFFF
   \<and> ParseMGTP4IPv6SrcNextMN
         [0x20, 0x01, 0x0D, 0xB8, 0xFF, 0xF0, 0xA0, 0x00, 0x00, 0x1F, 0xFF, 0xF0, 0, 0, 0, 0x2C]
       = Inr \<lparr>src_prefix =
                \<lparr>Addr = [0x20, 0x01, 0x0D, 0xB8, 0xFF, 0xF0, 0, 0, 0, 0, 0, 0, 0, 0, 0, 0],
                 Bits = 44\<rparr>,
              src_ipv4 = [10, 0, 0, 0], udp = 0xFFF0\<rparr>"
proof -
  have run: "MGTP4IPv6Src_Marshal
      (NewMGTP4IPv6Src
         \<lparr>Addr = [0x20, 0x01, 0x0D, 0xB8, 0xFF, 0xF0, 0, 0, 0, 0, 0, 0, 0, 0, 0, 0], Bits = 44\<rparr>
         [10, 0, 0, 1] 0xFFFF)
     = Inr [0x20, 0x01, 0x0D, 0xB8, 0xFF, 0xF0, 0xA0, 0x00, 0x00, 0x1F, 0xFF, 0xF0, 0, 0, 0, 0x2C]"
    by code_simp
  have len: "unat ([0x20, 0x01, 0x0D, 0xB8, 0xFF, 0xF0, 0xA0, 0x00, 0x00, 0x1F, 0xFF, 0xF0, 0, 0, 0,
             0x2C :: byte] ! 15 AND 0x7F) = 44"
    by simp
  have window: "window_value
         [0x20, 0x01, 0x0D, 0xB8, 0xFF, 0xF0, 0xA0, 0x00, 0x00, 0x1F, 0xFF, 0xF0, 0, 0, 0, 0x2C]
         (44 + 32) 16 = 0xFFFF"
    by (simp add: window_value_def bit_at_def upt_rec [of "numeral _"])
  have parse: "ParseMGTP4IPv6SrcNextMN
         [0x20, 0x01, 0x0D, 0xB8, 0xFF, 0xF0, 0xA0, 0x00, 0x00, 0x1F, 0xFF, 0xF0, 0, 0, 0, 0x2C]
       = Inr \<lparr>src_prefix =
                \<lparr>Addr = [0x20, 0x01, 0x0D, 0xB8, 0xFF, 0xF0, 0, 0, 0, 0, 0, 0, 0, 0, 0, 0],
                 Bits = 44\<rparr>,
              src_ipv4 = [10, 0, 0, 0], udp = 0xFFF0\<rparr>"
    by code_simp
  show ?thesis using run len window parse by (simp only: simp_thms)
qed

text \<open>
  C8 (fails on the code). The claim: whenever MarshalTo of a source address succeeds, the
  low 7 bits of byte 15 of the output equal the prefix length. With the canonical prefix
  \<open>::/128\<close> and a buffer of 22 bytes MarshalTo succeeds: the IPv4 bytes and the port go
  to bytes 16 to 21, past the 16 bytes of the address, and byte 15 is 0x80, whose low 7
  bits are 0 and not 128.
\<close>

theorem C8_oversized_buffer_example:
  "MGTP4IPv6Src_MarshalTo
      (NewMGTP4IPv6Src \<lparr>Addr = replicate 16 0, Bits = 128\<rparr> [1, 2, 3, 4] 5) (replicate 22 0)
     = Inr [0, 0, 0, 0, 0, 0, 0, 0, 0, 0, 0, 0, 0, 0, 0, 0x80, 1, 2, 3, 4, 0, 5]
   \<and> uint ([0, 0, 0, 0, 0, 0, 0, 0, 0, 0, 0, 0, 0, 0, 0, 0x80, 1, 2, 3, 4, 0, 5 :: byte] ! 15
             AND 0x7F)
       \<noteq> Bits (src_prefix
             (NewMGTP4IPv6Src \<lparr>Addr = replicate 16 0, Bits = 128\<rparr> [1, 2, 3, 4] 5))
   \<and> canonical (src_prefix
             (NewMGTP4IPv6Src \<lparr>Addr = replicate 16 0, Bits = 128\<rparr> [1, 2, 3, 4] 5))"
  by code_simp

text \<open>
  C9. For a destination address whose prefix length \<open>p\<close> has \<open>p + 32 + 40 > 128\<close> and
  \<open>p \<le> 128\<close>, Marshal (into its 16-byte buffer) returns ErrTooShortToMarshal, and the
  error is the one of the capacity check of AppendToSlice: of the append of the IPv4
  bytes, or else of the append of the argument block.
\<close>

theorem C9_oversized_prefix:
  assumes big: "Bits (dst_prefix m) + 32 + 40 > 128" and le: "Bits (dst_prefix m) \<le> 128"
  shows "MGTP4IPv6Dst_Marshal m = Inl ErrTooShortToMarshal
       \<and> (AppendToSlice (copy_at (replicate 16 0) 0 (Addr (dst_prefix m)))
              (word_of_int (Bits (dst_prefix m))) (dst_ipv4 m) = Inl ErrTooShortToMarshal
          \<or> (\<exists>b1 ab. AppendToSlice (copy_at (replicate 16 0) 0 (Addr (dst_prefix m)))
                        (word_of_int (Bits (dst_prefix m))) (dst_ipv4 m) = Inr b1
                   \<and> ArgsMobSession_Marshal (dst_argsMobSession m) = Inr ab
                   \<and> AppendToSlice b1 (word_of_int (Bits (dst_prefix m) + 8 * 4)) ab
                        = Inl ErrTooShortToMarshal))"
proof -
  let ?bits = "Bits (dst_prefix m)"
  let ?b0 = "copy_at (replicate 16 0) 0 (Addr (dst_prefix m))"
  let ?first = "AppendToSlice ?b0 (word_of_int ?bits) (dst_ipv4 m)"
  obtain ab where ab: "ArgsMobSession_Marshal (dst_argsMobSession m) = Inr ab" "length ab = 5"
    using ArgsMobSession_Marshal_ok by blast
  have nm: "?bits \<noteq> - 1" using big by simp
  have k: "unat (word_of_int (?bits + 8 * 4) :: uint) = nat (?bits + 32)"
    using big le unat_of_small_int [of "?bits + 32"] by simp
  have second: "AppendToSlice b1 (word_of_int (?bits + 8 * 4)) ab = Inl ErrTooShortToMarshal"
    if "length b1 = 16" for b1
  proof -
    have "(if 0 < nat (?bits + 32) mod 8 then 1 else 0) + nat (?bits + 32) div 8 + length ab
            > length b1"
      using no_room_for_args [of "nat (?bits + 32)"] big ab(2) that by simp
    then show ?thesis unfolding AppendToSlice_nat [OF k] by simp
  qed
  show ?thesis
  proof (cases ?first)
    case (Inl e)
    then have e: "e = ErrTooShortToMarshal" by (rule AppendToSlice_error)
    with Inl nm show ?thesis
      by (simp add: MGTP4IPv6Dst_Marshal_def MGTP4IPv6Dst_MarshalTo_def
          MGTP4IPv6Dst_MarshalLen_def Let_def)
  next
    case (Inr b1)
    then have "length b1 = 16" using AppendToSlice_length [OF Inr] by (simp add: length_copy_at)
    then have s: "AppendToSlice b1 (word_of_int (?bits + 8 * 4)) ab = Inl ErrTooShortToMarshal"
      by (rule second)
    with Inr nm ab show ?thesis
      by (simp add: MGTP4IPv6Dst_Marshal_def MGTP4IPv6Dst_MarshalTo_def
          MGTP4IPv6Dst_MarshalLen_def Let_def)
  qed
qed


theorem C9_oversized_prefix_witness:
  "Bits (dst_prefix (NewMGTP4IPv6Dst
       \<lparr>Addr = [0x20, 0x01, 0x0D, 0xB8, 0, 0, 0, 0, 0, 0, 0, 0, 0, 0, 0, 0], Bits = 64\<rparr>
       [203, 0, 113, 1] (NewArgsMobSession 0 False False 1))) + 32 + 40 > 128
   \<and> MGTP4IPv6Dst_Marshal (NewMGTP4IPv6Dst
       \<lparr>Addr = [0x20, 0x01, 0x0D, 0xB8, 0, 0, 0, 0, 0, 0, 0, 0, 0, 0, 0, 0], Bits = 64\<rparr>
       [203, 0, 113, 1] (NewArgsMobSession 0 False False 1)) = Inl ErrTooShortToMarshal"
  using C9_oversized_prefix [of "NewMGTP4IPv6Dst
       \<lparr>Addr = [0x20, 0x01, 0x0D, 0xB8, 0, 0, 0, 0, 0, 0, 0, 0, 0, 0, 0, 0], Bits = 64\<rparr>
       [203, 0, 113, 1] (NewArgsMobSession 0 False False 1)"]
  by (simp add: NewMGTP4IPv6Dst_def Masked_def)

text \<open>
  C10. For both composite marshals: two calls of MarshalTo of the same value, on two
  buffers of the same length with any contents, that both succeed leave the same first
  16 bytes in the two buffers.
\<close>

theorem C10_marshal_ignores_buffer:
  assumes len: "length b1 = length b2"
  shows "(length (Addr (dst_prefix d)) = 16 \<longrightarrow>
            (\<forall>o1 o2. MGTP4IPv6Dst_MarshalTo d b1 = Inr o1 \<longrightarrow>
                     MGTP4IPv6Dst_MarshalTo d b2 = Inr o2 \<longrightarrow> take 16 o1 = take 16 o2))
       \<and> (length (Addr (src_prefix s)) = 16 \<longrightarrow>
            (\<forall>o1 o2. MGTP4IPv6Src_MarshalTo s b1 = Inr o1 \<longrightarrow>
                     MGTP4IPv6Src_MarshalTo s b2 = Inr o2 \<longrightarrow> take 16 o1 = take 16 o2))"
proof -
  have dst: "take 16 o1 = take 16 o2"
    if a: "length (Addr (dst_prefix d)) = 16"
      and r1: "MGTP4IPv6Dst_MarshalTo d b1 = Inr o1"
      and r2: "MGTP4IPv6Dst_MarshalTo d b2 = Inr o2" for o1 o2
  proof -
    let ?bits = "Bits (dst_prefix d)"
    from r1 have lb: "16 \<le> length b1"
      by (auto simp: MGTP4IPv6Dst_MarshalTo_def MGTP4IPv6Dst_MarshalLen_def split: if_splits)
    obtain ab where ab: "ArgsMobSession_Marshal (dst_argsMobSession d) = Inr ab"
      using ArgsMobSession_Marshal_ok by blast
    from r1 ab obtain x1 where
      x1: "AppendToSlice (copy_at b1 0 (Addr (dst_prefix d))) (word_of_int ?bits) (dst_ipv4 d) = Inr x1"
      and y1: "AppendToSlice x1 (word_of_int (?bits + 8 * 4)) ab = Inr o1"
      by (auto simp: MGTP4IPv6Dst_MarshalTo_def Let_def split: if_splits sum.splits)
    from r2 ab obtain x2 where
      x2: "AppendToSlice (copy_at b2 0 (Addr (dst_prefix d))) (word_of_int ?bits) (dst_ipv4 d) = Inr x2"
      and y2: "AppendToSlice x2 (word_of_int (?bits + 8 * 4)) ab = Inr o2"
      by (auto simp: MGTP4IPv6Dst_MarshalTo_def Let_def split: if_splits sum.splits)
    have "agree 16 (copy_at b1 0 (Addr (dst_prefix d))) (copy_at b2 0 (Addr (dst_prefix d)))"
      using len lb a by (rule agree_prefix_copy)
    then have "agree 16 x1 x2" using x1 x2 by (rule agree_AppendToSlice)
    then have "agree 16 o1 o2" using y1 y2 by (rule agree_AppendToSlice)
    then show ?thesis by (simp add: agree_def)
  qed
  have src: "take 16 o1 = take 16 o2"
    if a: "length (Addr (src_prefix s)) = 16"
      and r1: "MGTP4IPv6Src_MarshalTo s b1 = Inr o1"
      and r2: "MGTP4IPv6Src_MarshalTo s b2 = Inr o2" for o1 o2
  proof -
    let ?bits = "Bits (src_prefix s)"
    let ?udpB = "copy_at (replicate 2 0) 0 (PutUint16 (udp s))"
    from r1 have lb: "16 \<le> length b1"
      by (auto simp: MGTP4IPv6Src_MarshalTo_def MGTP4IPv6Src_MarshalLen_def split: if_splits)
    from r1 obtain x1 y1 where
      x1: "AppendToSlice (copy_at b1 0 (Addr (src_prefix s))) (word_of_int ?bits) (src_ipv4 s) = Inr x1"
      and y1: "AppendToSlice x1 (word_of_int (?bits + 8 * 4)) ?udpB = Inr y1"
      and o1: "o1 = y1[ipv6LenEncodingPosByte := word_of_int ?bits]"
      by (auto simp: MGTP4IPv6Src_MarshalTo_def Let_def split: if_splits sum.splits)
    from r2 obtain x2 y2 where
      x2: "AppendToSlice (copy_at b2 0 (Addr (src_prefix s))) (word_of_int ?bits) (src_ipv4 s) = Inr x2"
      and y2: "AppendToSlice x2 (word_of_int (?bits + 8 * 4)) ?udpB = Inr y2"
      and o2: "o2 = y2[ipv6LenEncodingPosByte := word_of_int ?bits]"
      by (auto simp: MGTP4IPv6Src_MarshalTo_def Let_def split: if_splits sum.splits)
    have "agree 16 (copy_at b1 0 (Addr (src_prefix s))) (copy_at b2 0 (Addr (src_prefix s)))"
      using len lb a by (rule agree_prefix_copy)
    then have "agree 16 x1 x2" using x1 x2 by (rule agree_AppendToSlice)
    then have "agree 16 y1 y2" using y1 y2 by (rule agree_AppendToSlice)
    then have "agree 16 o1 o2" unfolding o1 o2 by (rule agree_update)
    then show ?thesis by (simp add: agree_def)
  qed
  show ?thesis using dst src by blast
qed

theorem C10_marshal_ignores_buffer_witness:
  "length (replicate 17 (0x00 :: byte)) = length (replicate 17 (0xFF :: byte))
   \<and> MGTP4IPv6Dst_MarshalTo ExampleMGTP4IPv6Dst (replicate 17 0x00)
       = Inr [0x3F, 0xFF, 0x0C, 0xB0, 0x07, 0x10, 0x10, 0, 0, 0, 0, 0x10, 0, 0, 0, 0, 0x00]
   \<and> MGTP4IPv6Dst_MarshalTo ExampleMGTP4IPv6Dst (replicate 17 0xFF)
       = Inr [0x3F, 0xFF, 0x0C, 0xB0, 0x07, 0x10, 0x10, 0, 0, 0, 0, 0x10, 0, 0, 0, 0, 0xFF]
   \<and> take 16 [0x3F, 0xFF, 0x0C, 0xB0, 0x07, 0x10, 0x10, 0, 0, 0, 0, 0x10, 0, 0, 0, 0, 0x00 :: byte]
       = take 16 [0x3F, 0xFF, 0x0C, 0xB0, 0x07, 0x10, 0x10, 0, 0, 0, 0, 0x10, 0, 0, 0, 0, 0xFF]
   \<and> MGTP4IPv6Src_MarshalTo ExampleMGTP4IPv6Src (replicate 17 0x00)
       = Inr [0x20, 0x01, 0x0D, 0xB8, 0xFF, 10, 0, 0, 1, 0x30, 0x39, 0, 0, 0, 0, 40, 0x00]
   \<and> MGTP4IPv6Src_MarshalTo ExampleMGTP4IPv6Src (replicate 17 0xFF)
       = Inr [0x20, 0x01, 0x0D, 0xB8, 0xFF, 10, 0, 0, 1, 0x30, 0x39, 0, 0, 0, 0, 40, 0xFF]
   \<and> take 16 [0x20, 0x01, 0x0D, 0xB8, 0xFF, 10, 0, 0, 1, 0x30, 0x39, 0, 0, 0, 0, 40, 0x00 :: byte]
       = take 16 [0x20, 0x01, 0x0D, 0xB8, 0xFF, 10, 0, 0, 1, 0x30, 0x39, 0, 0, 0, 0, 40, 0xFF]"
proof -
  have len: "length (replicate 17 (0x00 :: byte)) = length (replicate 17 (0xFF :: byte))"
    by simp
  have a: "length (Addr (dst_prefix ExampleMGTP4IPv6Dst)) = 16" by code_simp
  have r1: "MGTP4IPv6Dst_MarshalTo ExampleMGTP4IPv6Dst (replicate 17 0x00)
       = Inr [0x3F, 0xFF, 0x0C, 0xB0, 0x07, 0x10, 0x10, 0, 0, 0, 0, 0x10, 0, 0, 0, 0, 0x00]"
    by code_simp
  have r2: "MGTP4IPv6Dst_MarshalTo ExampleMGTP4IPv6Dst (replicate 17 0xFF)
       = Inr [0x3F, 0xFF, 0x0C, 0xB0, 0x07, 0x10, 0x10, 0, 0, 0, 0, 0x10, 0, 0, 0, 0, 0xFF]"
    by code_simp
  have a': "length (Addr (src_prefix ExampleMGTP4IPv6Src)) = 16" by code_simp
  have r1': "MGTP4IPv6Src_MarshalTo ExampleMGTP4IPv6Src (replicate 17 0x00)
       = Inr [0x20, 0x01, 0x0D, 0xB8, 0xFF, 10, 0, 0, 1, 0x30, 0x39, 0, 0, 0, 0, 40, 0x00]"
    by code_simp
  have r2': "MGTP4IPv6Src_MarshalTo ExampleMGTP4IPv6Src (replicate 17 0xFF)
       = Inr [0x20, 0x01, 0x0D, 0xB8, 0xFF, 10, 0, 0, 1, 0x30, 0x39, 0, 0, 0, 0, 40, 0xFF]"
    by code_simp
  note inst = C10_marshal_ignores_buffer [OF len, of ExampleMGTP4IPv6Dst ExampleMGTP4IPv6Src]
  from inst a r1 r2
  have d: "take 16 [0x3F, 0xFF, 0x0C, 0xB0, 0x07, 0x10, 0x10, 0, 0, 0, 0, 0x10, 0, 0, 0, 0, 0x00 :: byte]
       = take 16 [0x3F, 0xFF, 0x0C, 0xB0, 0x07, 0x10, 0x10, 0, 0, 0, 0, 0x10, 0, 0, 0, 0, 0xFF]"
    by blast
  from inst a' r1' r2'
  have s: "take 16 [0x20, 0x01, 0x0D, 0xB8, 0xFF, 10, 0, 0, 1, 0x30, 0x39, 0, 0, 0, 0, 40, 0x00 :: byte]
       = take 16 [0x20, 0x01, 0x0D, 0xB8, 0xFF, 10, 0, 0, 1, 0x30, 0x39, 0, 0, 0, 0, 40, 0xFF]"
    by blast
  from len r1 r2 d r1' r2' s show ?thesis by blast
qed

end
